theory Spec2Isabelle
  imports Complex_Main
begin

section \<open>Python values and exceptions\<close>

text \<open>
  A Python \<open>str\<close> is its sequence of code points, so that slicing and \<open>len\<close> count
  characters as Python does; bytes appear only where text is encoded.
\<close>

type_synonym pystr = "nat list"

text \<open>
  Every exception class that the modelled code can meet is a value of \<open>py_exception\<close>;
  a function that may raise returns \<open>py_exception + 'a\<close>, with \<open>Inl\<close> for the raise.
  \<open>superclasses\<close> lists a class with its bases among the modelled ones, as the libraries
  declare them: the signer's errors derive from \<open>BadData\<close>, with \<open>BadSignature\<close> above
  \<open>BadTimeSignature\<close>, \<open>SignatureExpired\<close> and \<open>BadHeader\<close>, and \<open>BadPayload\<close> beside
  \<open>BadSignature\<close>, not below it. An \<open>except\<close> clause catches an exception when one of
  the classes it names is among the exception's superclasses.
\<close>

datatype py_exception =
    StatisticsError
  | IntegrityError
  | BadData
  | BadSignature
  | BadTimeSignature
  | SignatureExpired
  | BadHeader
  | BadPayload
  | ValueError
  | UnicodeEncodeError
  | TypeError
  | OverflowError

fun superclasses :: "py_exception \<Rightarrow> py_exception list" where
  "superclasses SignatureExpired = [SignatureExpired, BadTimeSignature, BadSignature, BadData]"
| "superclasses BadTimeSignature = [BadTimeSignature, BadSignature, BadData]"
| "superclasses BadHeader = [BadHeader, BadSignature, BadData]"
| "superclasses BadSignature = [BadSignature, BadData]"
| "superclasses BadPayload = [BadPayload, BadData]"
| "superclasses UnicodeEncodeError = [UnicodeEncodeError, ValueError]"
| "superclasses StatisticsError = [StatisticsError, ValueError]"
| "superclasses e = [e]"

definition except_matches :: "py_exception list \<Rightarrow> py_exception \<Rightarrow> bool" where
  "except_matches classes e = list_ex (\<lambda>c. c \<in> set (superclasses e)) classes"

text \<open>
  The objects a deserialised session payload can be, and the builtin \<open>int\<close> on them.
  A finite float is a real number, the infinities (\<open>PyFloatInf\<close>, by sign) and NaN are
  values of their own: \<open>int\<close> truncates the first and raises on the others. Whether a
  text is an integer literal is left to the parameter \<open>literal\<close> (\<open>None\<close> where \<open>int\<close>
  raises \<open>ValueError\<close>).
\<close>

datatype pyobj =
    PyNone
  | PyBool bool
  | PyInt int
  | PyFloat real
  | PyFloatInf bool
  | PyFloatNaN
  | PyStr pystr
  | PyList "pyobj list"
  | PyDict "(pystr \<times> pyobj) list"

fun py_int :: "(pystr \<Rightarrow> int option) \<Rightarrow> pyobj \<Rightarrow> py_exception + int" where
  "py_int literal (PyInt n) = Inr n"
| "py_int literal (PyBool b) = Inr (if b then 1 else 0)"
| "py_int literal (PyFloat r) = Inr (if 0 \<le> r then \<lfloor>r\<rfloor> else \<lceil>r\<rceil>)"
| "py_int literal (PyFloatInf positive) = Inl OverflowError"
| "py_int literal PyFloatNaN = Inl ValueError"
| "py_int literal (PyStr s) = (case literal s of None \<Rightarrow> Inl ValueError | Some n \<Rightarrow> Inr n)"
| "py_int literal PyNone = Inl TypeError"
| "py_int literal (PyList xs) = Inl TypeError"
| "py_int literal (PyDict kvs) = Inl TypeError"

text \<open>
  UTF-8, the encoding in which a \<open>str\<close> leaves Python (to the hashing primitive, to
  the database driver): \<open>str.encode\<close> raises \<open>UnicodeEncodeError\<close> on a surrogate.
\<close>

definition utf8_char :: "nat \<Rightarrow> nat list" where
  "utf8_char c =
     (if c < 0x80 then [c]
      else if c < 0x800 then [0xC0 + c div 0x40, 0x80 + c mod 0x40]
      else if c < 0x10000 then
        [0xE0 + c div 0x1000, 0x80 + (c div 0x40) mod 0x40, 0x80 + c mod 0x40]
      else [0xF0 + c div 0x40000, 0x80 + (c div 0x1000) mod 0x40,
            0x80 + (c div 0x40) mod 0x40, 0x80 + c mod 0x40])"

definition encodable :: "nat \<Rightarrow> bool" where
  "encodable c = (c < 0xD800 \<or> (0xDFFF < c \<and> c < 0x110000))"

definition utf8_encode :: "pystr \<Rightarrow> py_exception + nat list" where
  "utf8_encode s =
     (if list_all encodable s then Inr (concat (map utf8_char s)) else Inl UnicodeEncodeError)"

section \<open>Reorder metrics engine (main.py, compute\_from\_last\_months)\<close>

text \<open>
  Python floats are idealised as real numbers: the engine is a chain of field operations,
  one square root and two \<open>max\<close>, and the model keeps each of them, without rounding.
  The result dictionary is a record with one field per key.
\<close>

record metrics =
  daily_velocity :: real
  std_daily :: real
  safety_stock :: real
  rop :: real
  order_qty :: real

text \<open>
  \<open>statistics.stdev\<close> of the standard library, on a list of ints: one pass collects the
  count, the sum and the sum of squares, the sum of squared deviations is
  \<open>(count * sxx - sx * sx) / count\<close> in exact arithmetic, fewer than two data points
  raise \<open>StatisticsError\<close>, and the result is the square root of the sum divided by
  \<open>n - 1\<close>.
\<close>

definition statistics_stdev :: "int list \<Rightarrow> py_exception + real" where
  "statistics_stdev data =
     (let n = length data;
          sx = sum_list data;
          sxx = sum_list (map (\<lambda>x. x * x) data);
          ss = (if n = 0 then 0
                else (real n * real_of_int sxx - real_of_int (sx * sx)) / real n)
      in if n < 2 then Inl StatisticsError
         else Inr (sqrt (ss / real (n - 1))))"

definition compute_from_last_months ::
  "int \<Rightarrow> real \<Rightarrow> int list \<Rightarrow> int \<Rightarrow> int \<Rightarrow> py_exception + metrics" where
  "compute_from_last_months lead_time z monthly_units fba_stock inbound_stock =
     (if monthly_units = [] then
        Inr \<lparr>daily_velocity = 0, std_daily = 0, safety_stock = 0, rop = 0, order_qty = 0\<rparr>
      else
        let mean_month = real_of_int (sum_list monthly_units) / real (length monthly_units);
            daily_velocity = mean_month / 30
        in case (if length monthly_units \<ge> 2
                 then (case statistics_stdev monthly_units of
                         Inl e \<Rightarrow> Inl e
                       | Inr s \<Rightarrow> Inr (s / 30))
                 else Inr 0) of
             Inl e \<Rightarrow> Inl e
           | Inr sd \<Rightarrow>
               let std_daily = sd;
                   safety_stock = z * std_daily * sqrt (real_of_int (max 1 lead_time));
                   rop = daily_velocity * real_of_int lead_time + safety_stock;
                   order_qty = max 0 (daily_velocity * 60 + safety_stock
                                        - real_of_int (fba_stock + inbound_stock))
               in Inr \<lparr>daily_velocity = daily_velocity, std_daily = std_daily,
                        safety_stock = safety_stock, rop = rop, order_qty = order_qty\<rparr>)"

subsection \<open>The reference definition of the specification\<close>

text \<open>
  These three definitions follow the words of the specification (section 4.3), not the
  code: the mean, the sample standard deviation with the \<open>n - 1\<close> divisor, and the five
  formulas of \<open>computeMetrics\<close> for a non-empty sequence.
\<close>

definition spec_mean :: "int list \<Rightarrow> real" where
  "spec_mean xs = (\<Sum>x\<leftarrow>xs. real_of_int x) / real (length xs)"

definition spec_sampleStdDev :: "int list \<Rightarrow> real" where
  "spec_sampleStdDev xs =
     sqrt ((\<Sum>x\<leftarrow>xs. (real_of_int x - spec_mean xs)\<^sup>2) / (real (length xs) - 1))"

definition spec_computeMetrics :: "int \<Rightarrow> real \<Rightarrow> int list \<Rightarrow> int \<Rightarrow> int \<Rightarrow> metrics" where
  "spec_computeMetrics leadTimeDays z xs fbaStock inboundStock =
     (let dailyVelocity = spec_mean xs / 30;
          stdDaily = (if length xs \<ge> 2 then spec_sampleStdDev xs / 30 else 0);
          safetyStock = z * stdDaily * sqrt (real_of_int (max 1 leadTimeDays));
          reorderPoint = dailyVelocity * real_of_int leadTimeDays + safetyStock;
          orderQuantity = max 0 (dailyVelocity * 60 + safetyStock
                                   - (real_of_int fbaStock + real_of_int inboundStock))
      in \<lparr>daily_velocity = dailyVelocity, std_daily = stdDaily, safety_stock = safetyStock,
          rop = reorderPoint, order_qty = orderQuantity\<rparr>)"

text \<open>
  The exact value of the engine on the scenario of the specification: lead time 7,
  Z 1.65, monthly units 100, 120, 110, on-hand stock 50, nothing inbound.
\<close>

definition scenario_exact :: metrics where
  "scenario_exact = \<lparr>daily_velocity = 11 / 3, std_daily = 1 / 3,
     safety_stock = 11 / 20 * sqrt 7, rop = 77 / 3 + 11 / 20 * sqrt 7,
     order_qty = 170 + 11 / 20 * sqrt 7\<rparr>"

section \<open>Calendar window (main.py, last\_n\_calendar\_months)\<close>

text \<open>
  \<open>date.today()\<close> is the parameter \<open>today\<close>. The loop body appends the current pair,
  steps the month down and wraps from January to December of the year before.
\<close>

record date =
  d_year :: int
  d_month :: int
  d_day :: int

fun months_loop :: "nat \<Rightarrow> int \<Rightarrow> int \<Rightarrow> (int \<times> int) list" where
  "months_loop 0 y m = []"
| "months_loop (Suc k) y m =
     (y, m) # (let m' = m - 1 in if m' = 0 then months_loop k (y - 1) 12 else months_loop k y m')"

definition last_n_calendar_months :: "date \<Rightarrow> int \<Rightarrow> (int \<times> int) list" where
  "last_n_calendar_months today n = months_loop (nat n) (d_year today) (d_month today)"




section \<open>Data store (db.py, and the user-scoped helpers of main.py)\<close>

text \<open>
  A table is the list of its rows, a row a record with one field per column (\<open>user_pk\<close>,
  \<open>product_pk\<close> and \<open>sale_pk\<close> are the \<open>id\<close> columns; the columns of
  \<open>monthly_sales\<close> that share a name with a column of \<open>products\<close> carry the prefix
  \<open>sale\<close>). The cursor is the state; a statement returns the new state, or raises.
  What the engine supplies to one statement is its \<open>stmt_env\<close>: the value of
  \<open>CURRENT_TIMESTAMP\<close> and the row id an insert would use.
  The constraints of the schema are part of the statements: \<open>UNIQUE\<close> is the conflict
  target of the upserts, the \<open>CHECK\<close>s of \<open>monthly_sales\<close> are evaluated on the proposed
  row before the conflict is looked for, and the foreign key to \<open>users\<close> is checked when a
  row is inserted. A violation raises \<open>IntegrityError\<close>. The callers commit only after
  every statement has returned, so a raise leaves nothing written.

  The batch upsert binds values that come straight from the caller. The driver binds
  the parameters in order, before the statement runs: a Python int as a signed 64-bit
  integer, raising \<open>OverflowError\<close> for one outside that range (\<open>fits_int64\<close>), and a
  \<open>str\<close> as UTF-8, raising \<open>UnicodeEncodeError\<close> for one that does not encode. Binding
  is modelled for this statement only; the other statements are modelled on arguments
  that can be bound.
\<close>

record user_row =
  user_pk :: int
  email :: pystr
  hashed_pw :: pystr
  user_created_at :: pystr

record product_row =
  product_pk :: int
  user_id :: int
  sku :: pystr
  name :: pystr
  lead_time_days :: int
  z_value :: real
  fba_stock :: int
  inbound_stock :: int
  updated_at :: pystr

record sale_row =
  sale_pk :: int
  sale_user_id :: int
  sale_sku :: pystr
  year :: int
  month :: int
  units_sold :: int
  created_at :: pystr

record database =
  users :: "user_row list"
  products :: "product_row list"
  monthly_sales :: "sale_row list"

record stmt_env =
  current_timestamp :: pystr
  new_rowid :: int

definition user_exists :: "database \<Rightarrow> int \<Rightarrow> bool" where
  "user_exists db uid = list_ex (\<lambda>u. user_pk u = uid) (users db)"

definition product_key :: "int \<Rightarrow> pystr \<Rightarrow> product_row \<Rightarrow> bool" where
  "product_key uid s r = (user_id r = uid \<and> sku r = s)"

definition sale_key :: "int \<Rightarrow> pystr \<Rightarrow> int \<Rightarrow> int \<Rightarrow> sale_row \<Rightarrow> bool" where
  "sale_key uid s y m r = (sale_user_id r = uid \<and> sale_sku r = s \<and> year r = y \<and> month r = m)"

definition upsert_product ::
  "database \<Rightarrow> stmt_env \<Rightarrow> int \<Rightarrow> pystr \<Rightarrow> pystr \<Rightarrow> int \<Rightarrow> real \<Rightarrow> int \<Rightarrow> int
     \<Rightarrow> py_exception + database" where
  "upsert_product cur env uid s nm lead_time z fba inbound =
     (if list_ex (product_key uid s) (products cur) then
        Inr (cur\<lparr>products :=
               map (\<lambda>r. if product_key uid s r
                         then r\<lparr>name := nm, lead_time_days := lead_time, z_value := z,
                                fba_stock := fba, inbound_stock := inbound,
                                updated_at := current_timestamp env\<rparr>
                         else r) (products cur)\<rparr>)
      else if user_exists cur uid then
        Inr (cur\<lparr>products := products cur @
               [\<lparr>product_pk = new_rowid env, user_id = uid, sku = s, name = nm,
                 lead_time_days = lead_time, z_value = z, fba_stock = fba,
                 inbound_stock = inbound, updated_at = current_timestamp env\<rparr>]\<rparr>)
      else Inl IntegrityError)"

definition fits_int64 :: "int \<Rightarrow> bool" where
  "fits_int64 i = (- (2 ^ 63) \<le> i \<and> i < 2 ^ 63)"

definition upsert_monthly_sale ::
  "database \<Rightarrow> stmt_env \<Rightarrow> int \<Rightarrow> pystr \<Rightarrow> int \<Rightarrow> int \<Rightarrow> int \<Rightarrow> py_exception + database" where
  "upsert_monthly_sale cur env uid s y m u =
     (if \<not> fits_int64 uid then Inl OverflowError
      else if \<not> list_all encodable s then Inl UnicodeEncodeError
      else if fits_int64 y \<and> fits_int64 m \<and> fits_int64 u then
        if 1 \<le> m \<and> m \<le> 12 \<and> 0 \<le> u then
          if list_ex (sale_key uid s y m) (monthly_sales cur) then
            Inr (cur\<lparr>monthly_sales :=
                   map (\<lambda>r. if sale_key uid s y m r
                             then r\<lparr>units_sold := u, created_at := current_timestamp env\<rparr>
                             else r) (monthly_sales cur)\<rparr>)
          else if user_exists cur uid then
            Inr (cur\<lparr>monthly_sales := monthly_sales cur @
                   [\<lparr>sale_pk = new_rowid env, sale_user_id = uid, sale_sku = s, year = y,
                     month = m, units_sold = u, created_at = current_timestamp env\<rparr>]\<rparr>)
          else Inl IntegrityError
        else Inl IntegrityError
      else Inl OverflowError)"

text \<open>
  \<open>upsert_monthly_sales\<close> runs one statement per triple of \<open>zip(years, months, units_sold)\<close>,
  in order; statement \<open>i\<close> of the call gets the environment \<open>envs i\<close>.
\<close>

fun upsert_each :: "database \<Rightarrow> (nat \<Rightarrow> stmt_env) \<Rightarrow> int \<Rightarrow> pystr \<Rightarrow> (int \<times> int \<times> int) list
     \<Rightarrow> py_exception + database" where
  "upsert_each cur envs uid s [] = Inr cur"
| "upsert_each cur envs uid s ((y, m, u) # rest) =
     (case upsert_monthly_sale cur (envs 0) uid s y m u of
        Inl e \<Rightarrow> Inl e
      | Inr cur' \<Rightarrow> upsert_each cur' (\<lambda>i. envs (Suc i)) uid s rest)"

definition upsert_monthly_sales ::
  "database \<Rightarrow> (nat \<Rightarrow> stmt_env) \<Rightarrow> int \<Rightarrow> pystr \<Rightarrow> int list \<Rightarrow> int list \<Rightarrow> int list
     \<Rightarrow> py_exception + database" where
  "upsert_monthly_sales cur envs uid s years months units =
     upsert_each cur envs uid s (zip years (zip months units))"

definition fetch_product :: "database \<Rightarrow> int \<Rightarrow> pystr \<Rightarrow> product_row option" where
  "fetch_product cur uid s = find (product_key uid s) (products cur)"

definition fetch_month_units :: "database \<Rightarrow> int \<Rightarrow> pystr \<Rightarrow> int \<Rightarrow> int \<Rightarrow> int option" where
  "fetch_month_units cur uid s y m =
     (case find (sale_key uid s y m) (monthly_sales cur) of
        None \<Rightarrow> None
      | Some row \<Rightarrow> Some (units_sold row))"

definition delete_product_and_sales :: "database \<Rightarrow> int \<Rightarrow> pystr \<Rightarrow> database" where
  "delete_product_and_sales cur uid s =
     (let cur1 = cur\<lparr>monthly_sales :=
                   filter (\<lambda>r. \<not> (sale_user_id r = uid \<and> sale_sku r = s)) (monthly_sales cur)\<rparr>
      in cur1\<lparr>products := filter (\<lambda>r. \<not> product_key uid s r) (products cur1)\<rparr>)"

definition delete_single_month_sale :: "database \<Rightarrow> int \<Rightarrow> pystr \<Rightarrow> int \<Rightarrow> int \<Rightarrow> database" where
  "delete_single_month_sale cur uid s y m =
     cur\<lparr>monthly_sales := filter (\<lambda>r. \<not> sale_key uid s y m r) (monthly_sales cur)\<rparr>"

section \<open>Aggregation (main.py, compute\_for\_sku)\<close>

fun collect_units :: "database \<Rightarrow> int \<Rightarrow> pystr \<Rightarrow> (int \<times> int) list \<Rightarrow> int list \<Rightarrow> int list" where
  "collect_units cur uid s [] monthly_units = monthly_units"
| "collect_units cur uid s ((y, m) # rest) monthly_units =
     (case fetch_month_units cur uid s y m of
        None \<Rightarrow> collect_units cur uid s rest monthly_units
      | Some u \<Rightarrow> collect_units cur uid s rest (monthly_units @ [u]))"

definition compute_for_sku ::
  "database \<Rightarrow> date \<Rightarrow> int \<Rightarrow> pystr
     \<Rightarrow> py_exception + (product_row \<times> (int \<times> int) list \<times> int list \<times> metrics) option" where
  "compute_for_sku cur today uid s =
     (case fetch_product cur uid s of
        None \<Rightarrow> Inr None
      | Some product \<Rightarrow>
          let last3 = last_n_calendar_months today 3;
              monthly_units = collect_units cur uid s last3 []
          in (case compute_from_last_months (lead_time_days product) (z_value product)
                     monthly_units (fba_stock product) (inbound_stock product) of
                Inl e \<Rightarrow> Inl e
              | Inr res \<Rightarrow> Inr (Some (product, last3, monthly_units, res))))"

section \<open>Invariants and views of the store\<close>


definition unique_sales :: "database \<Rightarrow> bool" where
  "unique_sales db =
     distinct (map (\<lambda>r. (sale_user_id r, sale_sku r, year r, month r)) (monthly_sales db))"

definition sale_check :: "int \<times> int \<times> int \<Rightarrow> bool" where
  "sale_check t = (case t of (y, m, u) \<Rightarrow> 1 \<le> m \<and> m \<le> 12 \<and> 0 \<le> u)"

definition sale_fits :: "int \<times> int \<times> int \<Rightarrow> bool" where
  "sale_fits t = (case t of (y, m, u) \<Rightarrow> fits_int64 y \<and> fits_int64 m \<and> fits_int64 u)"

definition products_of :: "int \<Rightarrow> database \<Rightarrow> product_row list" where
  "products_of uid db = filter (\<lambda>r. user_id r = uid) (products db)"

definition sales_of :: "int \<Rightarrow> database \<Rightarrow> sale_row list" where
  "sales_of uid db = filter (\<lambda>r. sale_user_id r = uid) (monthly_sales db)"

definition user_view :: "int \<Rightarrow> database \<Rightarrow> product_row list \<times> sale_row list" where
  "user_view uid db = (products_of uid db, sales_of uid db)"

section \<open>Credentials and sessions (auth.py)\<close>

text \<open>
  The signer \<open>URLSafeTimedSerializer\<close> is a library outside the repository and enters as
  a parameter: \<open>dumps\<close> takes the clock and an object, \<open>loads\<close> the clock, a token and
  the maximal age, and returns the object or raises. The token is opaque to auth.py,
  hence a type parameter.
\<close>

record 'tok serializer =
  dumps :: "int \<Rightarrow> pyobj \<Rightarrow> 'tok"
  loads :: "int \<Rightarrow> 'tok \<Rightarrow> int \<Rightarrow> py_exception + pyobj"

definition SESSION_MAX_AGE :: int where
  "SESSION_MAX_AGE = 60 * 60 * 24 * 30"

definition make_session_cookie :: "'tok serializer \<Rightarrow> int \<Rightarrow> int \<Rightarrow> 'tok" where
  "make_session_cookie signer now uid = dumps signer now (PyInt uid)"

definition decode_session_cookie ::
  "'tok serializer \<Rightarrow> (pystr \<Rightarrow> int option) \<Rightarrow> int \<Rightarrow> 'tok \<Rightarrow> py_exception + int option" where
  "decode_session_cookie signer literal now token =
     (case (case loads signer now token SESSION_MAX_AGE of
              Inl e \<Rightarrow> Inl e
            | Inr v \<Rightarrow> py_int literal v) of
        Inl e \<Rightarrow> if except_matches [BadSignature, SignatureExpired, ValueError] e
                 then Inr None else Inl e
      | Inr n \<Rightarrow> Inr (Some n))"

text \<open>
  The contract of the signer that the round trip rests on: a token made of an integer
  loads to that integer, as long as its age is within the maximal age.
\<close>

definition serializer_roundtrip :: "'tok serializer \<Rightarrow> bool" where
  "serializer_roundtrip signer =
     (\<forall>t now n max_age. t \<le> now \<and> now - t \<le> max_age
        \<longrightarrow> loads signer now (dumps signer t (PyInt n)) max_age = Inr (PyInt n))"

text \<open>
  A reference signer on abstract tokens: a token carries its payload (\<open>None\<close> when the
  signed bytes do not decode to an object), the time it was signed and the key that
  signed it. \<open>loads\<close> checks the signature, then the age against the maximal age, then
  decodes the payload.
\<close>

record signed_token =
  payload :: "pyobj option"
  issued_at :: int
  signed_with :: nat

definition timed_serializer :: "nat \<Rightarrow> signed_token serializer" where
  "timed_serializer key =
     \<lparr>dumps = (\<lambda>now obj. \<lparr>payload = Some obj, issued_at = now, signed_with = key\<rparr>),
      loads = (\<lambda>now token max_age.
         if signed_with token \<noteq> key then Inl BadSignature
         else if now - issued_at token > max_age then Inl SignatureExpired
         else if now - issued_at token < 0 then Inl SignatureExpired
         else (case payload token of None \<Rightarrow> Inl BadPayload | Some obj \<Rightarrow> Inr obj))\<rparr>"

text \<open>
  The password context \<open>CryptContext\<close> is a parameter too: a hash function of a salt and a
  secret, and a verification of a secret against a hash. The secret is the \<open>str\<close> that
  \<open>hash_password\<close> and \<open>verify_password\<close> hand over; what the context does with it
  (encode it, cut it at the 72 bytes bcrypt reads, or refuse it) is the context's.
\<close>

record crypt_context =
  ctx_hash :: "pystr \<Rightarrow> pystr \<Rightarrow> pystr"
  ctx_verify :: "pystr \<Rightarrow> pystr \<Rightarrow> bool"

definition hash_password :: "crypt_context \<Rightarrow> pystr \<Rightarrow> pystr \<Rightarrow> pystr" where
  "hash_password pwd_ctx salt plain = ctx_hash pwd_ctx salt (take 72 plain)"

definition verify_password :: "crypt_context \<Rightarrow> pystr \<Rightarrow> pystr \<Rightarrow> bool" where
  "verify_password pwd_ctx plain hashed = ctx_verify pwd_ctx (take 72 plain) hashed"

section \<open>Example data\<close>

definition fixture_envs :: "nat \<Rightarrow> stmt_env" where
  "fixture_envs i = \<lparr>current_timestamp = [], new_rowid = int i + 1\<rparr>"

definition fixture_users :: database where
  "fixture_users =
     \<lparr>users = [\<lparr>user_pk = 1, email = [97], hashed_pw = [], user_created_at = []\<rparr>,
               \<lparr>user_pk = 2, email = [98], hashed_pw = [], user_created_at = []\<rparr>],
      products = [], monthly_sales = []\<rparr>"

definition fixture_product :: "int \<Rightarrow> int \<Rightarrow> product_row" where
  "fixture_product pk uid =
     \<lparr>product_pk = pk, user_id = uid, sku = [65], name = [78], lead_time_days = 7,
      z_value = 165 / 100, fba_stock = 50, inbound_stock = 0, updated_at = []\<rparr>"

definition fixture_sale :: "int \<Rightarrow> int \<Rightarrow> int \<Rightarrow> int \<Rightarrow> int \<Rightarrow> sale_row" where
  "fixture_sale pk uid y m u =
     \<lparr>sale_pk = pk, sale_user_id = uid, sale_sku = [65], year = y, month = m,
      units_sold = u, created_at = []\<rparr>"

definition fixture_db :: database where
  "fixture_db = fixture_users
     \<lparr>products := [fixture_product 1 1, fixture_product 2 2],
      monthly_sales := [fixture_sale 1 1 2024 1 90, fixture_sale 2 1 2023 11 120,
                        fixture_sale 3 2 2024 1 7]\<rparr>"



section \<open>The metrics engine meets its reference definition\<close>

lemma sum_sq_dev_expand:
  "(\<Sum>x\<leftarrow>xs. (real_of_int x - m)\<^sup>2) =
     real_of_int (\<Sum>x\<leftarrow>xs. x * x) - 2 * m * real_of_int (sum_list xs)
       + real (length xs) * m\<^sup>2"
  by (induction xs) (simp_all add: power2_eq_square algebra_simps)

lemma sum_list_real_of_int: "(\<Sum>x\<leftarrow>xs. real_of_int x) = real_of_int (sum_list xs)"
  by (induction xs) simp_all

text \<open>The one-pass formula of the library is the sum of squared deviations from the mean.\<close>

lemma one_pass_ss:
  assumes "xs \<noteq> []"
  shows "(real (length xs) * real_of_int (\<Sum>x\<leftarrow>xs. x * x)
            - real_of_int (sum_list xs * sum_list xs)) / real (length xs)
         = (\<Sum>x\<leftarrow>xs. (real_of_int x - spec_mean xs)\<^sup>2)"
proof -
  have n: "real (length xs) \<noteq> 0" using assms by simp
  show ?thesis
    unfolding sum_sq_dev_expand spec_mean_def sum_list_real_of_int
    using n by (simp add: power2_eq_square field_simps)
qed

lemma statistics_stdev_eq:
  assumes l: "2 \<le> length xs"
  shows "statistics_stdev xs = Inr (spec_sampleStdDev xs)"
proof -
  from l have ne: "xs \<noteq> []" by auto
  have "real (length xs - 1) = real (length xs) - 1" using l by simp
  then show ?thesis
    using l ne one_pass_ss[OF ne]
    by (simp add: statistics_stdev_def spec_sampleStdDev_def Let_def)
qed

text \<open>
  Claim C1. For every non-empty sequence of monthly unit counts the engine returns (it
  does not raise) exactly the reference definition: daily velocity is the mean over 30, the
  daily standard deviation is the sample standard deviation (divisor \<open>n - 1\<close>) over 30 for
  two or more data points and 0 for one, safety stock is
  \<open>z * stdDaily * sqrt (max 1 leadTimeDays)\<close>, the reorder point is
  \<open>dailyVelocity * leadTimeDays + safetyStock\<close>, and the order quantity is
  \<open>max 0 (dailyVelocity * 60 + safetyStock - (fbaStock + inboundStock))\<close>, which is
  never negative.
\<close>

theorem compute_from_last_months_refines_spec:
  assumes "monthly_units \<noteq> []"
  shows "compute_from_last_months lead_time z monthly_units fba inbound
           = Inr (spec_computeMetrics lead_time z monthly_units fba inbound)
         \<and> 0 \<le> order_qty (spec_computeMetrics lead_time z monthly_units fba inbound)"
proof (cases "2 \<le> length monthly_units")
  case True
  then show ?thesis
    using assms statistics_stdev_eq[OF True]
    by (simp add: compute_from_last_months_def spec_computeMetrics_def spec_mean_def
        sum_list_real_of_int Let_def)
next
  case False
  then show ?thesis
    using assms
    by (simp add: compute_from_last_months_def spec_computeMetrics_def spec_mean_def
        sum_list_real_of_int Let_def)
qed

theorem compute_from_last_months_refines_spec_witness:
  "[42 :: int] \<noteq> []
   \<and> compute_from_last_months 0 2 [42] 5 1 = Inr (spec_computeMetrics 0 2 [42] 5 1)
   \<and> 0 \<le> order_qty (spec_computeMetrics 0 2 [42] 5 1)
   \<and> std_daily (spec_computeMetrics 0 2 [42] 5 1) = 0
   \<and> daily_velocity (spec_computeMetrics 0 2 [42] 5 1) = 7 / 5"
  using compute_from_last_months_refines_spec[of "[42]" 0 2 5 1]
  by (simp add: spec_computeMetrics_def spec_mean_def Let_def)

text \<open>
  Claim C2. On the empty sequence the engine returns the five metrics all equal to 0,
  whatever the lead time, the Z value and the stock levels.
\<close>

theorem compute_from_last_months_empty:
  "compute_from_last_months lead_time z [] fba inbound
     = Inr \<lparr>daily_velocity = 0, std_daily = 0, safety_stock = 0, rop = 0, order_qty = 0\<rparr>"
  by (simp add: compute_from_last_months_def)

subsection \<open>The scenario of the specification\<close>

lemma stdev_scenario: "statistics_stdev [100, 120, 110] = Inr 10"
proof -
  have "sqrt 100 = 10" using real_sqrt_abs[of 10] by simp
  then show ?thesis by (simp add: statistics_stdev_def Let_def)
qed

lemma sqrt7_bounds: "26457 / 10000 < sqrt 7" "sqrt 7 < 26458 / 10000"
proof -
  show "26457 / 10000 < sqrt 7"
    by (rule real_less_rsqrt) (simp add: power2_eq_square)
  show "sqrt 7 < 26458 / 10000"
    by (rule real_less_lsqrt) (simp_all add: power2_eq_square)
qed

lemma scenario_value:
  "compute_from_last_months 7 (165 / 100) [100, 120, 110] 50 0 = Inr scenario_exact"
  using sqrt7_bounds
  by (simp add: compute_from_last_months_def stdev_scenario scenario_exact_def Let_def)

text \<open>
  Claim C9, as stated, fails. On lead time 7, Z 1.65, units 100, 120, 110, stock 50 and 0
  the engine returns daily velocity \<open>11/3\<close>, daily standard deviation \<open>1/3\<close> (the sample
  standard deviation of the three counts is exactly 10), safety stock \<open>0.55 * sqrt 7\<close>,
  reorder point \<open>77/3 + 0.55 * sqrt 7\<close> and order quantity \<open>170 + 0.55 * sqrt 7\<close>. The
  standard deviation is more than 0.003 away from 0.337, the safety stock more than 0.02
  away from 1.48, the reorder point more than 0.4 away from 26.7 and the order quantity
  more than 0.2 away from 171.7.
\<close>

theorem scenario_counterexample:
  "compute_from_last_months 7 (165 / 100) [100, 120, 110] 50 0 = Inr scenario_exact
   \<and> 3 / 1000 < \<bar>std_daily scenario_exact - 337 / 1000\<bar>
   \<and> 2 / 100 < \<bar>safety_stock scenario_exact - 148 / 100\<bar>
   \<and> 4 / 10 < \<bar>rop scenario_exact - 267 / 10\<bar>
   \<and> 2 / 10 < \<bar>order_qty scenario_exact - 1717 / 10\<bar>"
  using sqrt7_bounds scenario_value
  by (simp add: scenario_exact_def abs_if)

text \<open>
  Claim C9, amended. On the same input the engine yields daily velocity 3.67, daily
  standard deviation 0.333, safety stock 1.46, reorder point 27.1 and order quantity
  171.5, each to within half a unit of its last digit.
\<close>

theorem scenario_amended:
  "\<exists>m. compute_from_last_months 7 (165 / 100) [100, 120, 110] 50 0 = Inr m
   \<and> \<bar>daily_velocity m - 367 / 100\<bar> \<le> 5 / 1000
   \<and> \<bar>std_daily m - 333 / 1000\<bar> \<le> 5 / 10000
   \<and> \<bar>safety_stock m - 146 / 100\<bar> \<le> 5 / 1000
   \<and> \<bar>rop m - 271 / 10\<bar> \<le> 5 / 100
   \<and> \<bar>order_qty m - 1715 / 10\<bar> \<le> 5 / 100"
  using sqrt7_bounds scenario_value
  by (simp add: scenario_exact_def abs_if)

section \<open>The calendar window and the aggregation\<close>



lemma collect_units_map_filter:
  "collect_units cur uid s ms acc
     = acc @ List.map_filter (\<lambda>(y, m). fetch_month_units cur uid s y m) ms"
  by (induction ms arbitrary: acc) (auto split: option.splits)

lemma find_None_list_ex: "find P xs = None \<longleftrightarrow> \<not> list_ex P xs"
  by (induction xs) auto

lemma find_Some_mem: "find P xs = Some x \<Longrightarrow> x \<in> set xs \<and> P x"
  by (induction xs) (auto split: if_splits)





section \<open>Upsert of a product\<close>




lemma upsert_product_conflict:
  "list_ex (product_key uid s) (products cur) \<Longrightarrow>
   upsert_product cur env uid s nm lt z fba inb =
     Inr (cur\<lparr>products :=
            map (\<lambda>r. if product_key uid s r
                      then r\<lparr>name := nm, lead_time_days := lt, z_value := z,
                             fba_stock := fba, inbound_stock := inb,
                             updated_at := current_timestamp env\<rparr>
                      else r) (products cur)\<rparr>)"
  by (simp add: upsert_product_def)










section \<open>Cross-user isolation\<close>

lemma filter_map_frame:
  "(\<And>r. P (f r) = P r) \<Longrightarrow> (\<And>r. P r \<Longrightarrow> f r = r) \<Longrightarrow> filter P (map f xs) = filter P xs"
  by (induction xs) auto

lemma find_filter_frame:
  "(\<And>r. P r \<Longrightarrow> Q r) \<Longrightarrow> find P (filter Q xs) = find P xs"
  by (induction xs) auto

lemma upsert_product_frame:
  assumes "u1 \<noteq> u2" and "upsert_product cur env u1 s nm lt z fba inb = Inr cur'"
  shows "user_view u2 cur' = user_view u2 cur"
proof (cases "list_ex (product_key u1 s) (products cur)")
  case True
  let ?upd = "\<lambda>r. if product_key u1 s r
                   then r\<lparr>name := nm, lead_time_days := lt, z_value := z,
                          fba_stock := fba, inbound_stock := inb,
                          updated_at := current_timestamp env\<rparr>
                   else r"
  have "filter (\<lambda>r. user_id r = u2) (map ?upd (products cur))
          = filter (\<lambda>r. user_id r = u2) (products cur)"
    by (rule filter_map_frame) (use assms(1) in \<open>auto simp: product_key_def\<close>)
  with True assms(2) show ?thesis
    by (auto simp: upsert_product_conflict user_view_def products_of_def sales_of_def)
next
  case False
  with assms show ?thesis
    by (auto simp: upsert_product_def user_view_def products_of_def sales_of_def
        split: if_splits)
qed

lemma upsert_monthly_sale_frame:
  assumes "u1 \<noteq> u2" and "upsert_monthly_sale cur env u1 s y m u = Inr cur'"
  shows "user_view u2 cur' = user_view u2 cur"
proof (cases "list_ex (sale_key u1 s y m) (monthly_sales cur)")
  case True
  let ?upd = "\<lambda>r. if sale_key u1 s y m r
                   then r\<lparr>units_sold := u, created_at := current_timestamp env\<rparr>
                   else r"
  have "filter (\<lambda>r. sale_user_id r = u2) (map ?upd (monthly_sales cur))
          = filter (\<lambda>r. sale_user_id r = u2) (monthly_sales cur)"
    by (rule filter_map_frame) (use assms(1) in \<open>auto simp: sale_key_def\<close>)
  with True assms(2) show ?thesis
    by (auto simp: upsert_monthly_sale_def user_view_def products_of_def sales_of_def
        split: if_splits)
next
  case False
  with assms show ?thesis
    by (auto simp: upsert_monthly_sale_def user_view_def products_of_def sales_of_def
        split: if_splits)
qed

lemma upsert_each_frame:
  "u1 \<noteq> u2 \<Longrightarrow> upsert_each cur envs u1 s ts = Inr cur' \<Longrightarrow>
   user_view u2 cur' = user_view u2 cur"
proof (induction ts arbitrary: cur envs)
  case Nil
  then show ?case by simp
next
  case (Cons t ts)
  obtain y m u where t: "t = (y, m, u)" by (cases t)
  from Cons.prems(2) obtain c where
    c: "upsert_monthly_sale cur (envs 0) u1 s y m u = Inr c"
    and rest: "upsert_each c (\<lambda>i. envs (Suc i)) u1 s ts = Inr cur'"
    by (auto simp: t split: sum.splits)
  have "user_view u2 cur' = user_view u2 c"
    using Cons.prems(1) rest by (rule Cons.IH)
  also have "\<dots> = user_view u2 cur"
    using Cons.prems(1) c by (rule upsert_monthly_sale_frame)
  finally show ?case .
qed

lemma delete_product_and_sales_frame:
  "u1 \<noteq> u2 \<Longrightarrow> user_view u2 (delete_product_and_sales cur u1 s) = user_view u2 cur"
  by (auto simp: delete_product_and_sales_def user_view_def products_of_def sales_of_def
      Let_def product_key_def intro!: filter_cong)

lemma delete_single_month_sale_frame:
  "u1 \<noteq> u2 \<Longrightarrow> user_view u2 (delete_single_month_sale cur u1 s y m) = user_view u2 cur"
  by (auto simp: delete_single_month_sale_def user_view_def products_of_def sales_of_def
      sale_key_def intro!: filter_cong)

lemma fetch_product_view:
  "fetch_product cur uid s = find (product_key uid s) (fst (user_view uid cur))"
  using find_filter_frame[of "product_key uid s" "\<lambda>r. user_id r = uid" "products cur"]
  by (simp add: fetch_product_def user_view_def products_of_def product_key_def)

lemma fetch_month_units_view:
  "fetch_month_units cur uid s y m =
     (case find (sale_key uid s y m) (snd (user_view uid cur)) of
        None \<Rightarrow> None | Some row \<Rightarrow> Some (units_sold row))"
  using find_filter_frame[of "sale_key uid s y m" "\<lambda>r. sale_user_id r = uid" "monthly_sales cur"]
  by (simp add: fetch_month_units_def user_view_def sales_of_def sale_key_def)

lemma reads_depend_on_view:
  assumes "user_view uid cur' = user_view uid cur"
  shows "fetch_product cur' uid s = fetch_product cur uid s"
    and "fetch_month_units cur' uid s y m = fetch_month_units cur uid s y m"
    and "compute_for_sku cur' today uid s = compute_for_sku cur today uid s"
proof -
  show p: "fetch_product cur' uid s = fetch_product cur uid s"
    by (simp add: fetch_product_view assms)
  show "fetch_month_units cur' uid s y m = fetch_month_units cur uid s y m"
    by (simp add: fetch_month_units_view assms)
  have "\<And>y m. fetch_month_units cur' uid s y m = fetch_month_units cur uid s y m"
    by (simp add: fetch_month_units_view assms)
  then have c: "\<And>ms acc. collect_units cur' uid s ms acc = collect_units cur uid s ms acc"
    by (simp add: collect_units_map_filter)
  show "compute_for_sku cur' today uid s = compute_for_sku cur today uid s"
    unfolding compute_for_sku_def p c ..
qed

text \<open>
  Claim C8. For two distinct users \<open>u1\<close> and \<open>u2\<close>, whatever the SKU strings (equal ones
  included): every mutation on behalf of \<open>u1\<close> (product upsert, batch sales upsert,
  product deletion, deletion of one fact) leaves the product and monthly-sales rows of
  \<open>u2\<close> exactly as they were, and every read on behalf of \<open>u2\<close> (\<open>fetch_product\<close>,
  \<open>fetch_month_units\<close>, \<open>compute_for_sku\<close>) is determined by the rows of \<open>u2\<close> alone, so
  it returns the same before and after.
\<close>

theorem cross_user_isolation:
  assumes "u1 \<noteq> u2"
  shows "(\<forall>cur'. upsert_product cur env u1 s nm lt z fba inb = Inr cur'
            \<longrightarrow> user_view u2 cur' = user_view u2 cur)
       \<and> (\<forall>cur'. upsert_monthly_sales cur envs u1 s years months units = Inr cur'
            \<longrightarrow> user_view u2 cur' = user_view u2 cur)
       \<and> user_view u2 (delete_product_and_sales cur u1 s) = user_view u2 cur
       \<and> user_view u2 (delete_single_month_sale cur u1 s y m) = user_view u2 cur
       \<and> (\<forall>cur'. user_view u2 cur' = user_view u2 cur
            \<longrightarrow> fetch_product cur' u2 s2 = fetch_product cur u2 s2
              \<and> fetch_month_units cur' u2 s2 y2 m2 = fetch_month_units cur u2 s2 y2 m2
              \<and> compute_for_sku cur' today u2 s2 = compute_for_sku cur today u2 s2)"
  using assms
  by (auto simp: upsert_monthly_sales_def delete_product_and_sales_frame
      delete_single_month_sale_frame
      dest: upsert_product_frame upsert_each_frame reads_depend_on_view)

theorem cross_user_isolation_witness:
  "(1 :: int) \<noteq> 2
   \<and> user_view 2 (delete_product_and_sales fixture_db 1 [65]) = user_view 2 fixture_db
   \<and> fetch_product (delete_product_and_sales fixture_db 1 [65]) 1 [65] = None
   \<and> fetch_product (delete_product_and_sales fixture_db 1 [65]) 2 [65]
       = Some (fixture_product 2 2)
   \<and> fetch_month_units (delete_product_and_sales fixture_db 1 [65]) 2 [65] 2024 1 = Some 7
   \<and> fetch_month_units (delete_product_and_sales fixture_db 1 [65]) 1 [65] 2024 1 = None"
  using cross_user_isolation[of 1 2 fixture_db _ "[65]" _ _ _ _ _ _ _ _ _ _ _ "[65]" 2024 1]
  by (simp add: delete_product_and_sales_def fixture_db_def fixture_users_def
      fixture_product_def fixture_sale_def product_key_def sale_key_def fetch_product_def
      fetch_month_units_def user_view_def products_of_def sales_of_def Let_def)

section \<open>Batch upsert of monthly sales\<close>

lemma upsert_monthly_sale_users:
  "upsert_monthly_sale cur env uid s y m u = Inr cur' \<Longrightarrow> users cur' = users cur"
  by (auto simp: upsert_monthly_sale_def split: if_splits)

lemma upsert_monthly_sale_error:
  "upsert_monthly_sale cur env uid s y m u = Inl e \<Longrightarrow>
   e = IntegrityError \<or> e = OverflowError \<or> e = UnicodeEncodeError"
  by (auto simp: upsert_monthly_sale_def split: if_splits)

lemma upsert_monthly_sale_bad:
  "fits_int64 uid \<and> list_all encodable s \<Longrightarrow>
   \<not> (sale_fits (y, m, u) \<and> sale_check (y, m, u)) \<Longrightarrow>
   upsert_monthly_sale cur env uid s y m u
     = Inl (if sale_fits (y, m, u) then IntegrityError else OverflowError)"
  by (auto simp: upsert_monthly_sale_def sale_check_def sale_fits_def)

lemma upsert_monthly_sale_ok:
  "fits_int64 uid \<and> list_all encodable s \<Longrightarrow> sale_fits (y, m, u) \<Longrightarrow>
   sale_check (y, m, u) \<Longrightarrow>
   user_exists cur uid \<Longrightarrow> \<exists>cur'. upsert_monthly_sale cur env uid s y m u = Inr cur'"
  by (auto simp: upsert_monthly_sale_def sale_check_def sale_fits_def)

lemma upsert_monthly_sale_rows_frame:
  assumes "upsert_monthly_sale cur env uid s y m u = Inr cur'"
    and avoid: "\<And>r. P r \<Longrightarrow> \<not> sale_key uid s y m r"
  shows "filter P (monthly_sales cur') = filter P (monthly_sales cur)
       \<and> products cur' = products cur \<and> users cur' = users cur"
proof (cases "list_ex (sale_key uid s y m) (monthly_sales cur)")
  case True
  let ?upd = "\<lambda>r. if sale_key uid s y m r
                   then r\<lparr>units_sold := u, created_at := current_timestamp env\<rparr>
                   else r"
  have keep: "\<And>r. sale_key uid s y m (?upd r) = sale_key uid s y m r"
    by (simp add: sale_key_def)
  have inv: "\<And>r. P (?upd r) = P r"
  proof -
    fix r show "P (?upd r) = P r"
    proof (cases "sale_key uid s y m r")
      case True
      then have "\<not> P r" using avoid by blast
      moreover have "\<not> P (?upd r)" using avoid keep True by blast
      ultimately show ?thesis by simp
    next
      case False
      then show ?thesis by simp
    qed
  qed
  have same: "\<And>r. P r \<Longrightarrow> ?upd r = r"
    using avoid by auto
  have "filter P (map ?upd (monthly_sales cur)) = filter P (monthly_sales cur)"
    using inv same by (rule filter_map_frame)
  with True assms(1) show ?thesis
    by (auto simp: upsert_monthly_sale_def split: if_splits)
next
  case False
  let ?new = "\<lparr>sale_pk = new_rowid env, sale_user_id = uid, sale_sku = s, year = y,
                month = m, units_sold = u, created_at = current_timestamp env\<rparr>"
  have "sale_key uid s y m ?new" by (simp add: sale_key_def)
  then have "\<not> P ?new" using avoid by blast
  with False assms(1) show ?thesis
    by (auto simp: upsert_monthly_sale_def split: if_splits)
qed

lemma find_map_upd:
  "(\<And>r. P (f r) = P r) \<Longrightarrow> find P (map f xs) = map_option f (find P xs)"
  by (induction xs) auto

lemma find_append_new:
  "find P (xs @ [x]) = (case find P xs of None \<Rightarrow> (if P x then Some x else None) | Some r \<Rightarrow> Some r)"
  by (induction xs) auto

lemma upsert_monthly_sale_fetch_same:
  assumes "upsert_monthly_sale cur env uid s y m u = Inr cur'"
  shows "fetch_month_units cur' uid s y m = Some u"
proof (cases "list_ex (sale_key uid s y m) (monthly_sales cur)")
  case True
  let ?upd = "\<lambda>r. if sale_key uid s y m r
                   then r\<lparr>units_sold := u, created_at := current_timestamp env\<rparr>
                   else r"
  have keep: "\<And>r. sale_key uid s y m (?upd r) = sale_key uid s y m r"
    by (simp add: sale_key_def)
  from True obtain r where r: "find (sale_key uid s y m) (monthly_sales cur) = Some r"
    using find_None_list_ex[of "sale_key uid s y m" "monthly_sales cur"] by auto
  then have k: "sale_key uid s y m r"
    using find_Some_mem by fastforce
  have "find (sale_key uid s y m) (map ?upd (monthly_sales cur)) = Some (?upd r)"
    using find_map_upd[of "sale_key uid s y m" ?upd "monthly_sales cur", OF keep] r by simp
  with True assms k show ?thesis
    by (auto simp: upsert_monthly_sale_def fetch_month_units_def split: if_splits)
next
  case False
  then have "find (sale_key uid s y m) (monthly_sales cur) = None"
    by (simp add: find_None_list_ex)
  with False assms show ?thesis
    by (auto simp: upsert_monthly_sale_def fetch_month_units_def find_append_new sale_key_def
        split: if_splits)
qed

lemma upsert_monthly_sale_fetch_other:
  assumes "upsert_monthly_sale cur env uid s y m u = Inr cur'" and "(y', m') \<noteq> (y, m)"
  shows "fetch_month_units cur' uid s y' m' = fetch_month_units cur uid s y' m'"
proof (cases "list_ex (sale_key uid s y m) (monthly_sales cur)")
  case True
  let ?upd = "\<lambda>r. if sale_key uid s y m r
                   then r\<lparr>units_sold := u, created_at := current_timestamp env\<rparr>
                   else r"
  have keep: "\<And>r. sale_key uid s y' m' (?upd r) = sale_key uid s y' m' r"
    by (simp add: sale_key_def)
  have same: "\<And>r. sale_key uid s y' m' r \<Longrightarrow> ?upd r = r"
    using assms(2) by (auto simp: sale_key_def)
  have "find (sale_key uid s y' m') (map ?upd (monthly_sales cur))
          = map_option ?upd (find (sale_key uid s y' m') (monthly_sales cur))"
    using find_map_upd[of "sale_key uid s y' m'" ?upd "monthly_sales cur", OF keep] .
  also have "\<dots> = find (sale_key uid s y' m') (monthly_sales cur)"
  proof (cases "find (sale_key uid s y' m') (monthly_sales cur)")
    case None
    then show ?thesis by simp
  next
    case (Some r)
    then have "sale_key uid s y' m' r" using find_Some_mem by fastforce
    with Some same show ?thesis by simp
  qed
  finally show ?thesis
    using True assms(1)
    by (auto simp: upsert_monthly_sale_def fetch_month_units_def split: if_splits)
next
  case False
  with assms show ?thesis
    by (auto simp: upsert_monthly_sale_def fetch_month_units_def find_append_new sale_key_def
        split: if_splits option.splits)
qed

lemma upsert_each_error:
  "upsert_each cur envs uid s ts = Inl e \<Longrightarrow>
   e = IntegrityError \<or> e = OverflowError \<or> e = UnicodeEncodeError"
proof (induction ts arbitrary: cur envs)
  case Nil
  then show ?case by simp
next
  case (Cons t ts)
  obtain y m u where t: "t = (y, m, u)" by (cases t)
  show ?case
  proof (cases "upsert_monthly_sale cur (envs 0) uid s y m u")
    case (Inl e')
    with Cons.prems t show ?thesis by (auto dest: upsert_monthly_sale_error)
  next
    case (Inr c)
    with Cons.prems t have "upsert_each c (\<lambda>i. envs (Suc i)) uid s ts = Inl e" by simp
    then show ?thesis by (rule Cons.IH)
  qed
qed

lemma upsert_each_ok:
  "\<forall>t \<in> set ts. sale_fits t \<and> sale_check t \<Longrightarrow> fits_int64 uid \<and> list_all encodable s \<Longrightarrow>
   user_exists cur uid \<Longrightarrow>
   \<exists>cur'. upsert_each cur envs uid s ts = Inr cur'"
proof (induction ts arbitrary: cur envs)
  case Nil
  then show ?case by simp
next
  case (Cons t ts)
  obtain y m u where t: "t = (y, m, u)" by (cases t)
  with Cons.prems obtain c where c: "upsert_monthly_sale cur (envs 0) uid s y m u = Inr c"
    using upsert_monthly_sale_ok[of uid s y m u cur "envs 0"] by auto
  then have "user_exists c uid"
    using Cons.prems(3) upsert_monthly_sale_users[OF c] by (simp add: user_exists_def)
  with Cons.prems(1,2) obtain cur' where "upsert_each c (\<lambda>i. envs (Suc i)) uid s ts = Inr cur'"
    using Cons.IH[of c "\<lambda>i. envs (Suc i)"] by auto
  with c t show ?case by simp
qed

text \<open>
  The first paired triple that cannot be bound or fails a check decides how the call
  ends: with \<open>OverflowError\<close> when it cannot be bound, with \<open>IntegrityError\<close> otherwise.
\<close>

lemma upsert_each_first_bad:
  "fits_int64 uid \<and> list_all encodable s \<Longrightarrow> user_exists cur uid \<Longrightarrow> i < length ts \<Longrightarrow>
   \<forall>j<i. sale_fits (ts ! j) \<and> sale_check (ts ! j) \<Longrightarrow>
   \<not> (sale_fits (ts ! i) \<and> sale_check (ts ! i)) \<Longrightarrow>
   upsert_each cur envs uid s ts
     = Inl (if sale_fits (ts ! i) then IntegrityError else OverflowError)"
proof (induction ts arbitrary: cur envs i)
  case Nil
  then show ?case by simp
next
  case (Cons t ts)
  obtain y m u where t: "t = (y, m, u)" by (cases t)
  show ?case
  proof (cases i)
    case 0
    with Cons.prems(5) t have "\<not> (sale_fits (y, m, u) \<and> sale_check (y, m, u))" by simp
    then have "upsert_monthly_sale cur (envs 0) uid s y m u
                 = Inl (if sale_fits (y, m, u) then IntegrityError else OverflowError)"
      using Cons.prems(1) by (rule upsert_monthly_sale_bad[rotated])
    with 0 t show ?thesis by simp
  next
    case (Suc k)
    from Cons.prems(4) Suc have t_ok: "sale_fits t \<and> sale_check t" by auto
    then obtain c where c: "upsert_monthly_sale cur (envs 0) uid s y m u = Inr c"
      using upsert_monthly_sale_ok[of uid s y m u cur "envs 0"] Cons.prems(1,2) t by auto
    have uc: "user_exists c uid"
      using Cons.prems(2) upsert_monthly_sale_users[OF c] by (simp add: user_exists_def)
    have k: "k < length ts" using Cons.prems(3) Suc by simp
    have before: "\<forall>j<k. sale_fits (ts ! j) \<and> sale_check (ts ! j)"
    proof (intro allI impI)
      fix j assume "j < k"
      with Cons.prems(4)[rule_format, of "Suc j"] Suc
      show "sale_fits (ts ! j) \<and> sale_check (ts ! j)" by simp
    qed
    have bad: "\<not> (sale_fits (ts ! k) \<and> sale_check (ts ! k))"
      using Cons.prems(5) Suc by simp
    have "upsert_each c (\<lambda>i. envs (Suc i)) uid s ts
            = Inl (if sale_fits (ts ! k) then IntegrityError else OverflowError)"
      using Cons.prems(1) uc k before bad by (rule Cons.IH)
    with c t Suc show ?thesis by simp
  qed
qed

lemma upsert_each_rows_frame:
  "upsert_each cur envs uid s ts = Inr cur' \<Longrightarrow>
   (\<And>r y m u. P r \<Longrightarrow> (y, m, u) \<in> set ts \<Longrightarrow> \<not> sale_key uid s y m r) \<Longrightarrow>
   filter P (monthly_sales cur') = filter P (monthly_sales cur)
     \<and> products cur' = products cur \<and> users cur' = users cur"
proof (induction ts arbitrary: cur envs)
  case Nil
  then show ?case by simp
next
  case (Cons t ts)
  obtain y m u where t: "t = (y, m, u)" by (cases t)
  from Cons.prems(1) obtain c where
    c: "upsert_monthly_sale cur (envs 0) uid s y m u = Inr c"
    and rest: "upsert_each c (\<lambda>i. envs (Suc i)) uid s ts = Inr cur'"
    by (auto simp: t split: sum.splits)
  have one: "filter P (monthly_sales c) = filter P (monthly_sales cur)
       \<and> products c = products cur \<and> users c = users cur"
    using c by (rule upsert_monthly_sale_rows_frame) (use Cons.prems(2) t in auto)
  have "filter P (monthly_sales cur') = filter P (monthly_sales c)
       \<and> products cur' = products c \<and> users cur' = users c"
    using rest by (rule Cons.IH) (use Cons.prems(2) in auto)
  with one show ?case by simp
qed

lemma upsert_each_fetch_other:
  "upsert_each cur envs uid s ts = Inr cur' \<Longrightarrow>
   (y', m') \<notin> set (map (\<lambda>(y, m, u). (y, m)) ts) \<Longrightarrow>
   fetch_month_units cur' uid s y' m' = fetch_month_units cur uid s y' m'"
proof (induction ts arbitrary: cur envs)
  case Nil
  then show ?case by simp
next
  case (Cons t ts)
  obtain y m u where t: "t = (y, m, u)" by (cases t)
  from Cons.prems(1) obtain c where
    c: "upsert_monthly_sale cur (envs 0) uid s y m u = Inr c"
    and rest: "upsert_each c (\<lambda>i. envs (Suc i)) uid s ts = Inr cur'"
    by (auto simp: t split: sum.splits)
  from Cons.prems(2) have ne: "(y', m') \<noteq> (y, m)"
    and nin: "(y', m') \<notin> set (map (\<lambda>(y, m, u). (y, m)) ts)"
    by (auto simp: t)
  have "fetch_month_units cur' uid s y' m' = fetch_month_units c uid s y' m'"
    using rest nin by (rule Cons.IH)
  also have "\<dots> = fetch_month_units cur uid s y' m'"
    using c ne by (rule upsert_monthly_sale_fetch_other)
  finally show ?case .
qed

lemma upsert_each_fetch_last:
  "upsert_each cur envs uid s ts = Inr cur' \<Longrightarrow> i < length ts \<Longrightarrow> ts ! i = (y, m, u) \<Longrightarrow>
   (\<forall>j. i < j \<and> j < length ts \<longrightarrow> (\<lambda>(y, m, u). (y, m)) (ts ! j) \<noteq> (y, m)) \<Longrightarrow>
   fetch_month_units cur' uid s y m = Some u"
proof (induction ts arbitrary: cur envs i)
  case Nil
  then show ?case by simp
next
  case (Cons t ts)
  obtain y0 m0 u0 where t: "t = (y0, m0, u0)" by (cases t)
  from Cons.prems(1) obtain c where
    c: "upsert_monthly_sale cur (envs 0) uid s y0 m0 u0 = Inr c"
    and rest: "upsert_each c (\<lambda>i. envs (Suc i)) uid s ts = Inr cur'"
    by (auto simp: t split: sum.splits)
  show ?case
  proof (cases i)
    case 0
    with Cons.prems(3) t have eq: "y0 = y" "m0 = m" "u0 = u" by simp_all
    have "(y, m) \<notin> set (map (\<lambda>(y, m, u). (y, m)) ts)"
    proof
      assume "(y, m) \<in> set (map (\<lambda>(y, m, u). (y, m)) ts)"
      then obtain j where j: "j < length ts" "(\<lambda>(y, m, u). (y, m)) (ts ! j) = (y, m)"
        by (auto simp: in_set_conv_nth)
      with Cons.prems(4)[rule_format, of "Suc j"] 0 show False by simp
    qed
    then have "fetch_month_units cur' uid s y m = fetch_month_units c uid s y m"
      using rest by (simp add: upsert_each_fetch_other)
    also have "\<dots> = Some u"
      using c eq by (simp add: upsert_monthly_sale_fetch_same)
    finally show ?thesis .
  next
    case (Suc k)
    with Cons.prems have k: "k < length ts" "ts ! k = (y, m, u)" by simp_all
    have later: "\<forall>j. k < j \<and> j < length ts \<longrightarrow> (\<lambda>(y, m, u). (y, m)) (ts ! j) \<noteq> (y, m)"
    proof (intro allI impI)
      fix j assume "k < j \<and> j < length ts"
      with Cons.prems(4)[rule_format, of "Suc j"] Suc
      show "(\<lambda>(y, m, u). (y, m)) (ts ! j) \<noteq> (y, m)" by simp
    qed
    show ?thesis using rest k later by (rule Cons.IH)
  qed
qed

lemma upsert_monthly_sale_unique:
  assumes "unique_sales cur" and "upsert_monthly_sale cur env uid s y m u = Inr cur'"
  shows "unique_sales cur'"
proof (cases "list_ex (sale_key uid s y m) (monthly_sales cur)")
  case True
  let ?upd = "\<lambda>r. if sale_key uid s y m r
                   then r\<lparr>units_sold := u, created_at := current_timestamp env\<rparr>
                   else r"
  have "map (\<lambda>r. (sale_user_id r, sale_sku r, year r, month r)) (map ?upd (monthly_sales cur))
          = map (\<lambda>r. (sale_user_id r, sale_sku r, year r, month r)) (monthly_sales cur)"
    by (induction "monthly_sales cur") (simp_all add: sale_key_def)
  with True assms show ?thesis
    by (auto simp: upsert_monthly_sale_def unique_sales_def simp del: map_map split: if_splits)
next
  case False
  then have "(uid, s, y, m)
      \<notin> set (map (\<lambda>r. (sale_user_id r, sale_sku r, year r, month r)) (monthly_sales cur))"
    by (auto simp: list_ex_iff sale_key_def)
  with False assms show ?thesis
    by (auto simp: upsert_monthly_sale_def unique_sales_def split: if_splits)
qed

lemma upsert_each_unique:
  "unique_sales cur \<Longrightarrow> upsert_each cur envs uid s ts = Inr cur' \<Longrightarrow> unique_sales cur'"
proof (induction ts arbitrary: cur envs)
  case Nil
  then show ?case by simp
next
  case (Cons t ts)
  obtain y m u where t: "t = (y, m, u)" by (cases t)
  from Cons.prems(2) obtain c where
    c: "upsert_monthly_sale cur (envs 0) uid s y m u = Inr c"
    and rest: "upsert_each c (\<lambda>i. envs (Suc i)) uid s ts = Inr cur'"
    by (auto simp: t split: sum.splits)
  have "unique_sales c" using Cons.prems(1) c by (rule upsert_monthly_sale_unique)
  then show ?case using rest by (rule Cons.IH)
qed

lemma fetch_Some_row:
  "fetch_month_units cur uid s y m = Some u \<Longrightarrow>
   \<exists>r \<in> set (monthly_sales cur). sale_key uid s y m r"
  by (auto simp: fetch_month_units_def split: option.splits dest: find_Some_mem)

text \<open>Rows under a uniqueness constraint: as many rows carry a key of \<open>ks\<close> as \<open>ks\<close> has keys.\<close>

lemma count_rows_with_keys:
  assumes d: "distinct (map f rows)" and dk: "distinct ks" and sub: "set ks \<subseteq> f ` set rows"
  shows "length (filter (\<lambda>r. f r \<in> set ks) rows) = length ks"
proof -
  have "distinct (map f (filter (\<lambda>r. f r \<in> set ks) rows))"
    using d by (rule distinct_map_filter)
  then have "length (filter (\<lambda>r. f r \<in> set ks) rows)
               = card (f ` set (filter (\<lambda>r. f r \<in> set ks) rows))"
    using distinct_card[of "map f (filter (\<lambda>r. f r \<in> set ks) rows)"] by simp
  also have "f ` set (filter (\<lambda>r. f r \<in> set ks) rows) = set ks"
    using sub by auto
  also have "card (set ks) = length ks"
    using dk by (rule distinct_card)
  finally show ?thesis .
qed

lemma zip3_truncate:
  "zip years (zip months units)
     = zip (take (min (length years) (min (length months) (length units))) years)
         (zip (take (min (length years) (min (length months) (length units))) months)
              (take (min (length years) (min (length months) (length units))) units))"
proof -
  let ?n = "min (length years) (min (length months) (length units))"
  have "zip years (zip months units) = take ?n (zip years (zip months units))"
    by simp
  also have "\<dots> = zip (take ?n years) (zip (take ?n months) (take ?n units))"
    by (simp only: take_zip)
  finally show ?thesis .
qed

lemma zip3_nth:
  "i < min (length years) (min (length months) (length units)) \<Longrightarrow>
   zip years (zip months units) ! i = (years ! i, months ! i, units ! i)"
  by simp

lemma zip3_keys:
  "map (\<lambda>(y, m, u). (y, m)) (zip years (zip months units))
     = zip (take (min (length years) (min (length months) (length units))) years)
           (take (min (length years) (min (length months) (length units))) months)"
proof (induction years arbitrary: months units)
  case Nil
  then show ?case by simp
next
  case (Cons y ys)
  show ?case
  proof (cases months)
    case Nil
    then show ?thesis by simp
  next
    case mc: (Cons m ms)
    show ?thesis
    proof (cases units)
      case Nil
      then show ?thesis by (simp add: mc)
    next
      case (Cons u us)
      then show ?thesis using Cons.IH[of ms us] by (simp add: mc)
    qed
  qed
qed

lemma batch_example:
  "upsert_monthly_sales fixture_users fixture_envs 1 [65] [2024, 2024, 2023] [1, 2] [5, 6, 7, 8]
     = Inr (fixture_users\<lparr>monthly_sales :=
              [fixture_sale 1 1 2024 1 5, fixture_sale 2 1 2024 2 6]\<rparr>)"
  by (simp add: upsert_monthly_sales_def upsert_monthly_sale_def fixture_users_def
      fixture_envs_def fixture_sale_def user_exists_def sale_key_def fits_int64_def
      encodable_def)

text \<open>
  Claim C10, as stated, fails: not every call writes \<open>min(len(years), len(months),
  len(units_sold))\<close> facts. A paired month of 13 violates the CHECK constraint of the table:
  the call raises \<open>IntegrityError\<close> and writes nothing, where the minimum is 1. Two paired
  entries for the same year and month are one fact: the second statement updates the row
  of the first, and the table holds 1 fact where the minimum is 2.
\<close>

theorem upsert_monthly_sales_counterexample:
  "min (length [2024 :: int]) (min (length [13 :: int]) (length [5 :: int])) = 1
   \<and> upsert_monthly_sales fixture_users fixture_envs 1 [65] [2024] [13] [5] = Inl IntegrityError
   \<and> min (length [2024, 2024 :: int]) (min (length [1, 1 :: int]) (length [5, 6 :: int])) = 2
   \<and> upsert_monthly_sales fixture_users fixture_envs 1 [65] [2024, 2024] [1, 1] [5, 6]
       = Inr (fixture_users\<lparr>monthly_sales := [fixture_sale 1 1 2024 1 6]\<rparr>)
   \<and> length (monthly_sales (fixture_users\<lparr>monthly_sales := [fixture_sale 1 1 2024 1 6]\<rparr>)) = 1"
  by (simp add: upsert_monthly_sales_def upsert_monthly_sale_def fixture_users_def
      fixture_envs_def fixture_sale_def user_exists_def sale_key_def fits_int64_def
      encodable_def)

text \<open>
  Claim C10, amended. With \<open>n = min(len(years), len(months), len(units_sold))\<close>, the batch
  upsert pairs the lists positionally: a call equals the call on the three lists cut to
  their first \<open>n\<close> entries, so surplus entries are ignored. It runs one upsert per paired
  triple, in order, for a user id that exists and fits 64 bits and a SKU that encodes as
  UTF-8. The first paired triple that holds an integer outside the signed 64-bit range,
  or whose month is outside 1..12 or whose units are negative, ends the call: with
  \<open>OverflowError\<close> in the first case, with \<open>IntegrityError\<close> otherwise. When every paired triple fits and passes the checks, the
  call succeeds, every paired (year, month) holds the units of its last occurrence among
  the pairs, every other row of \<open>monthly_sales\<close> and the other tables are untouched, and
  when the paired (year, month) are pairwise distinct (and the table honoured its
  uniqueness constraint) exactly \<open>n\<close> facts of this user and SKU carry them.
\<close>

theorem upsert_monthly_sales_pairs:
  fixes years months units :: "int list"
  defines "n \<equiv> min (length years) (min (length months) (length units))"
  shows "upsert_monthly_sales cur envs uid s years months units
           = upsert_monthly_sales cur envs uid s (take n years) (take n months) (take n units)
       \<and> (fits_int64 uid \<and> list_all encodable s \<and> user_exists cur uid
            \<longrightarrow> (\<forall>i<n. (\<forall>j<i. sale_fits (years ! j, months ! j, units ! j)
                              \<and> sale_check (years ! j, months ! j, units ! j))
                       \<and> \<not> (sale_fits (years ! i, months ! i, units ! i)
                              \<and> sale_check (years ! i, months ! i, units ! i))
                   \<longrightarrow> upsert_monthly_sales cur envs uid s years months units
                         = Inl (if sale_fits (years ! i, months ! i, units ! i)
                                then IntegrityError else OverflowError)))
       \<and> (fits_int64 uid \<and> list_all encodable s \<and> user_exists cur uid
            \<and> (\<forall>i<n. sale_fits (years ! i, months ! i, units ! i)
                        \<and> sale_check (years ! i, months ! i, units ! i))
            \<longrightarrow> (\<exists>cur'. upsert_monthly_sales cur envs uid s years months units = Inr cur'
                 \<and> (\<forall>i<n. (\<forall>j. i < j \<and> j < n \<longrightarrow> (years ! j, months ! j) \<noteq> (years ! i, months ! i))
                       \<longrightarrow> fetch_month_units cur' uid s (years ! i) (months ! i) = Some (units ! i))
                 \<and> (\<forall>y m. (y, m) \<notin> set (zip (take n years) (take n months))
                       \<longrightarrow> fetch_month_units cur' uid s y m = fetch_month_units cur uid s y m)
                 \<and> filter (\<lambda>r. \<not> (sale_user_id r = uid \<and> sale_sku r = s
                                  \<and> (year r, month r) \<in> set (zip (take n years) (take n months))))
                      (monthly_sales cur')
                     = filter (\<lambda>r. \<not> (sale_user_id r = uid \<and> sale_sku r = s
                                  \<and> (year r, month r) \<in> set (zip (take n years) (take n months))))
                      (monthly_sales cur)
                 \<and> products cur' = products cur \<and> users cur' = users cur
                 \<and> (unique_sales cur \<and> distinct (zip (take n years) (take n months))
                       \<longrightarrow> length (filter (\<lambda>r. sale_user_id r = uid \<and> sale_sku r = s
                                        \<and> (year r, month r) \<in> set (zip (take n years) (take n months)))
                                     (monthly_sales cur')) = n)))"
proof (intro conjI impI)
  let ?ts = "zip years (zip months units)"
  let ?K = "zip (take n years) (take n months)"
  have len: "length ?ts = n" by (simp add: n_def)
  have nth: "\<And>i. i < n \<Longrightarrow> ?ts ! i = (years ! i, months ! i, units ! i)"
    unfolding n_def by (rule zip3_nth)
  have keys: "map (\<lambda>(y, m, u). (y, m)) ?ts = ?K"
    unfolding n_def by (rule zip3_keys)
  show "upsert_monthly_sales cur envs uid s years months units
          = upsert_monthly_sales cur envs uid s (take n years) (take n months) (take n units)"
    unfolding upsert_monthly_sales_def n_def by (subst zip3_truncate) (rule refl)
  {
    assume a: "fits_int64 uid \<and> list_all encodable s \<and> user_exists cur uid"
    show "\<forall>i<n. (\<forall>j<i. sale_fits (years ! j, months ! j, units ! j)
                       \<and> sale_check (years ! j, months ! j, units ! j))
                \<and> \<not> (sale_fits (years ! i, months ! i, units ! i)
                       \<and> sale_check (years ! i, months ! i, units ! i))
            \<longrightarrow> upsert_monthly_sales cur envs uid s years months units
                  = Inl (if sale_fits (years ! i, months ! i, units ! i)
                         then IntegrityError else OverflowError)"
    proof (intro allI impI)
      fix i assume i: "i < n"
        and h: "(\<forall>j<i. sale_fits (years ! j, months ! j, units ! j)
                       \<and> sale_check (years ! j, months ! j, units ! j))
                \<and> \<not> (sale_fits (years ! i, months ! i, units ! i)
                       \<and> sale_check (years ! i, months ! i, units ! i))"
      have li: "i < length ?ts" using i len by simp
      have ti: "?ts ! i = (years ! i, months ! i, units ! i)" by (rule nth[OF i])
      have before: "\<forall>j<i. sale_fits (?ts ! j) \<and> sale_check (?ts ! j)"
      proof (intro allI impI)
        fix j assume j: "j < i"
        then have "j < n" using i by simp
        then have "?ts ! j = (years ! j, months ! j, units ! j)" by (rule nth)
        with h j show "sale_fits (?ts ! j) \<and> sale_check (?ts ! j)" by simp
      qed
      have bad: "\<not> (sale_fits (?ts ! i) \<and> sale_check (?ts ! i))"
        using h by (simp only: ti) blast
      have "upsert_each cur envs uid s ?ts
              = Inl (if sale_fits (?ts ! i) then IntegrityError else OverflowError)"
        using a li before bad
        by (intro upsert_each_first_bad) simp_all
      then show "upsert_monthly_sales cur envs uid s years months units
                  = Inl (if sale_fits (years ! i, months ! i, units ! i)
                         then IntegrityError else OverflowError)"
        unfolding upsert_monthly_sales_def by (simp only: ti)
    qed
  }
  assume ok: "fits_int64 uid \<and> list_all encodable s \<and> user_exists cur uid
            \<and> (\<forall>i<n. sale_fits (years ! i, months ! i, units ! i)
                        \<and> sale_check (years ! i, months ! i, units ! i))"
  have "\<forall>t \<in> set ?ts. sale_fits t \<and> sale_check t"
  proof
    fix t assume "t \<in> set ?ts"
    then obtain i where i: "i < n" "t = ?ts ! i"
      using len by (metis in_set_conv_nth)
    then have "t = (years ! i, months ! i, units ! i)" using nth by simp
    with ok i(1) show "sale_fits t \<and> sale_check t" by simp
  qed
  then obtain cur' where res: "upsert_each cur envs uid s ?ts = Inr cur'"
    using ok upsert_each_ok[of ?ts uid s cur envs] by blast
  have last: "\<forall>i<n. (\<forall>j. i < j \<and> j < n \<longrightarrow> (years ! j, months ! j) \<noteq> (years ! i, months ! i))
                 \<longrightarrow> fetch_month_units cur' uid s (years ! i) (months ! i) = Some (units ! i)"
  proof (intro allI impI)
    fix i assume i: "i < n"
      and later: "\<forall>j. i < j \<and> j < n \<longrightarrow> (years ! j, months ! j) \<noteq> (years ! i, months ! i)"
    have lat: "\<forall>j. i < j \<and> j < length ?ts
            \<longrightarrow> (\<lambda>(y, m, u). (y, m)) (?ts ! j) \<noteq> (years ! i, months ! i)"
      using later nth len by (simp del: nth_zip)
    have li: "i < length ?ts" using i len by simp
    have ti: "?ts ! i = (years ! i, months ! i, units ! i)" by (rule nth[OF i])
    show "fetch_month_units cur' uid s (years ! i) (months ! i) = Some (units ! i)"
      by (rule upsert_each_fetch_last[OF res li ti lat])
  qed
  have other: "\<forall>y m. (y, m) \<notin> set ?K
                 \<longrightarrow> fetch_month_units cur' uid s y m = fetch_month_units cur uid s y m"
    using upsert_each_fetch_other[OF res] keys by simp
  have frame: "filter (\<lambda>r. \<not> (sale_user_id r = uid \<and> sale_sku r = s
                            \<and> (year r, month r) \<in> set ?K)) (monthly_sales cur')
               = filter (\<lambda>r. \<not> (sale_user_id r = uid \<and> sale_sku r = s
                            \<and> (year r, month r) \<in> set ?K)) (monthly_sales cur)
             \<and> products cur' = products cur \<and> users cur' = users cur"
  proof (rule upsert_each_rows_frame[OF res])
    fix r :: sale_row and y m u
    assume p: "\<not> (sale_user_id r = uid \<and> sale_sku r = s \<and> (year r, month r) \<in> set ?K)"
      and t: "(y, m, u) \<in> set ?ts"
    from t have "(y, m) \<in> set (map (\<lambda>(y, m, u). (y, m)) ?ts)" by force
    then have "(y, m) \<in> set ?K" by (simp only: keys)
    with p show "\<not> sale_key uid s y m r" by (auto simp: sale_key_def)
  qed
  have count: "unique_sales cur \<and> distinct ?K
       \<longrightarrow> length (filter (\<lambda>r. sale_user_id r = uid \<and> sale_sku r = s
                        \<and> (year r, month r) \<in> set ?K)
                     (monthly_sales cur')) = n"
  proof
    assume a: "unique_sales cur \<and> distinct ?K"
    let ?f = "\<lambda>r. (sale_user_id r, sale_sku r, year r, month r)"
    let ?ks = "map (\<lambda>(y, m). (uid, s, y, m)) ?K"
    have lk: "length ?K = n" by (simp add: n_def)
    have u': "distinct (map ?f (monthly_sales cur'))"
      using a res upsert_each_unique by (auto simp: unique_sales_def)
    have dk: "distinct ?ks"
      using a by (auto simp: distinct_map inj_on_def)
    have sub: "set ?ks \<subseteq> ?f ` set (monthly_sales cur')"
    proof
      fix k assume "k \<in> set ?ks"
      then obtain y m where ym: "(y, m) \<in> set ?K" "k = (uid, s, y, m)" by auto
      then obtain i where i: "i < n" "?K ! i = (y, m)"
        using lk by (metis in_set_conv_nth)
      then have yi: "y = years ! i" "m = months ! i"
        by (simp_all add: n_def)
      have "\<forall>j. i < j \<and> j < n \<longrightarrow> (years ! j, months ! j) \<noteq> (years ! i, months ! i)"
      proof (intro allI impI)
        fix j assume j: "i < j \<and> j < n"
        have dK: "distinct ?K" using a by blast
        have "j < length ?K" "i < length ?K" "j \<noteq> i"
          using j i(1) lk by simp_all
        then have "?K ! j \<noteq> ?K ! i"
          using nth_eq_iff_index_eq[OF dK, of j i] by blast
        moreover have "?K ! j = (years ! j, months ! j)" "?K ! i = (years ! i, months ! i)"
          using j i(1) by (simp_all add: n_def)
        ultimately show "(years ! j, months ! j) \<noteq> (years ! i, months ! i)" by simp
      qed
      with last i(1) have "fetch_month_units cur' uid s y m = Some (units ! i)"
        by (simp add: yi)
      then obtain r where "r \<in> set (monthly_sales cur')" "sale_key uid s y m r"
        using fetch_Some_row by blast
      then show "k \<in> ?f ` set (monthly_sales cur')"
        using ym(2) by (auto simp: sale_key_def image_iff intro!: bexI[of _ r])
    qed
    have cnt: "length (filter (\<lambda>r. ?f r \<in> set ?ks) (monthly_sales cur')) = length ?ks"
      using u' dk sub by (rule count_rows_with_keys)
    have pq: "(\<lambda>r. ?f r \<in> set ?ks)
        = (\<lambda>r. sale_user_id r = uid \<and> sale_sku r = s \<and> (year r, month r) \<in> set ?K)"
      by (auto simp: fun_eq_iff)
    have "length ?ks = n" using lk by simp
    with cnt show "length (filter (\<lambda>r. sale_user_id r = uid \<and> sale_sku r = s
                        \<and> (year r, month r) \<in> set ?K) (monthly_sales cur')) = n"
      unfolding pq by simp
  qed
  from res last other frame count
  show "\<exists>cur'. upsert_monthly_sales cur envs uid s years months units = Inr cur'
          \<and> (\<forall>i<n. (\<forall>j. i < j \<and> j < n \<longrightarrow> (years ! j, months ! j) \<noteq> (years ! i, months ! i))
                \<longrightarrow> fetch_month_units cur' uid s (years ! i) (months ! i) = Some (units ! i))
          \<and> (\<forall>y m. (y, m) \<notin> set ?K
                \<longrightarrow> fetch_month_units cur' uid s y m = fetch_month_units cur uid s y m)
          \<and> filter (\<lambda>r. \<not> (sale_user_id r = uid \<and> sale_sku r = s
                           \<and> (year r, month r) \<in> set ?K)) (monthly_sales cur')
              = filter (\<lambda>r. \<not> (sale_user_id r = uid \<and> sale_sku r = s
                           \<and> (year r, month r) \<in> set ?K)) (monthly_sales cur)
          \<and> products cur' = products cur \<and> users cur' = users cur
          \<and> (unique_sales cur \<and> distinct ?K
                \<longrightarrow> length (filter (\<lambda>r. sale_user_id r = uid \<and> sale_sku r = s
                                 \<and> (year r, month r) \<in> set ?K)
                              (monthly_sales cur')) = n)"
    unfolding upsert_monthly_sales_def by blast
qed

theorem upsert_monthly_sales_pairs_witness:
  "fits_int64 1 \<and> list_all encodable [65] \<and> user_exists fixture_users 1
   \<and> unique_sales fixture_users
   \<and> min (length [2024, 2024, 2023 :: int]) (min (length [1, 2 :: int]) (length [5, 6, 7, 8 :: int])) = 2
   \<and> upsert_monthly_sales fixture_users fixture_envs 1 [65] [2024, 2024, 2023] [1, 2] [5, 6, 7, 8]
       = upsert_monthly_sales fixture_users fixture_envs 1 [65] [2024, 2024] [1, 2] [5, 6]
   \<and> upsert_monthly_sales fixture_users fixture_envs 1 [65] [2024, 2024, 2023] [1, 2] [5, 6, 7, 8]
       = Inr (fixture_users\<lparr>monthly_sales :=
                [fixture_sale 1 1 2024 1 5, fixture_sale 2 1 2024 2 6]\<rparr>)
   \<and> upsert_monthly_sales fixture_users fixture_envs 1 [65] [2024, 2024] [1, 0] [5, 6]
       = Inl IntegrityError
   \<and> upsert_monthly_sales fixture_users fixture_envs 1 [65] [2024, 2024] [1, 0] [2 ^ 63, 6]
       = Inl OverflowError"
proof -
  note t = upsert_monthly_sales_pairs[of fixture_users fixture_envs 1 "[65]"
      "[2024, 2024, 2023]" "[1, 2]" "[5, 6, 7, 8]"]
  note r = upsert_monthly_sales_pairs[of fixture_users fixture_envs 1 "[65]"
      "[2024, 2024]" "[1, 0]" "[5, 6]"]
  note o = upsert_monthly_sales_pairs[of fixture_users fixture_envs 1 "[65]"
      "[2024, 2024]" "[1, 0]" "[2 ^ 63, 6]"]
  have f: "fits_int64 1" "list_all encodable [65]"
    by (simp_all add: fits_int64_def encodable_def)
  have e: "user_exists fixture_users 1" "unique_sales fixture_users"
    by (simp_all add: user_exists_def unique_sales_def fixture_users_def)
  have "upsert_monthly_sales fixture_users fixture_envs 1 [65] [2024, 2024] [1, 0] [5, 6]
          = Inl IntegrityError"
    using r[THEN conjunct2, THEN conjunct1, rule_format, of 1] f e(1)
    by (simp add: sale_fits_def sale_check_def fits_int64_def)
  moreover have "upsert_monthly_sales fixture_users fixture_envs 1 [65] [2024, 2024] [1, 0]
          [2 ^ 63, 6] = Inl OverflowError"
    using o[THEN conjunct2, THEN conjunct1, rule_format, of 0] f e(1)
    by (simp add: sale_fits_def sale_check_def fits_int64_def)
  ultimately show ?thesis
    using t[THEN conjunct1] batch_example f e by simp
qed

section \<open>Session tokens\<close>

text \<open>
  Claim C5. With a signer that honours its round-trip contract (the same signer, hence
  the same key, on both sides), a token made for a user id at time \<open>t\<close> decodes to that
  user id at any time from \<open>t\<close> up to the maximal age later, immediately after creation
  included.
\<close>

theorem session_roundtrip:
  assumes "serializer_roundtrip signer" and "t \<le> now" and "now - t \<le> SESSION_MAX_AGE"
  shows "decode_session_cookie signer literal now (make_session_cookie signer t uid)
           = Inr (Some uid)"
  using assms
  by (simp add: decode_session_cookie_def make_session_cookie_def serializer_roundtrip_def)

lemma timed_serializer_roundtrip: "serializer_roundtrip (timed_serializer key)"
  by (simp add: serializer_roundtrip_def timed_serializer_def)

theorem session_roundtrip_witness:
  "serializer_roundtrip (timed_serializer 7) \<and> (1000 :: int) \<le> 1000
   \<and> (1000 :: int) - 1000 \<le> SESSION_MAX_AGE
   \<and> decode_session_cookie (timed_serializer 7) (\<lambda>s. None) 1000
        (make_session_cookie (timed_serializer 7) 1000 42) = Inr (Some 42)"
  using session_roundtrip[of "timed_serializer 7" 1000 1000 "\<lambda>s. None" 42]
    timed_serializer_roundtrip[of 7]
  by (simp add: SESSION_MAX_AGE_def)

text \<open>
  What the \<open>except\<close> clause of \<open>decode_session_cookie\<close> covers: the result is \<open>None\<close>
  whenever the signer raises \<open>BadSignature\<close> or one of its subclasses (signature mismatch,
  malformed token, expiry) or a \<open>ValueError\<close>, and whenever \<open>int\<close> rejects the loaded
  payload with \<open>ValueError\<close>; the result is the integer when \<open>int\<close> accepts the payload.
  The maximal age passed to the signer is 30 days.
\<close>

lemma decode_session_cookie_outcomes:
  "(\<forall>e. loads signer now token SESSION_MAX_AGE = Inl e
        \<and> e \<in> set [BadSignature, BadTimeSignature, SignatureExpired, BadHeader,
                     ValueError, UnicodeEncodeError]
      \<longrightarrow> decode_session_cookie signer literal now token = Inr None)
   \<and> (\<forall>obj. loads signer now token SESSION_MAX_AGE = Inr obj
      \<longrightarrow> (\<forall>n. py_int literal obj = Inr n
              \<longrightarrow> decode_session_cookie signer literal now token = Inr (Some n))
        \<and> (py_int literal obj = Inl ValueError
              \<longrightarrow> decode_session_cookie signer literal now token = Inr None))
   \<and> SESSION_MAX_AGE = 30 * (24 * 60 * 60)"
  by (auto simp: decode_session_cookie_def except_matches_def SESSION_MAX_AGE_def)

text \<open>
  On the reference signer: a token one second past 30 days decodes to \<open>None\<close> although
  its signature is correct, a token of exactly 30 days still decodes, and a token signed
  with another key decodes to \<open>None\<close>.
\<close>

lemma decode_session_cookie_expiry:
  "loads (timed_serializer 7) 2592001 (make_session_cookie (timed_serializer 7) 0 42)
       SESSION_MAX_AGE = Inl SignatureExpired
   \<and> decode_session_cookie (timed_serializer 7) (\<lambda>s. None) 2592001
        (make_session_cookie (timed_serializer 7) 0 42) = Inr None
   \<and> decode_session_cookie (timed_serializer 7) (\<lambda>s. None) 2592000
        (make_session_cookie (timed_serializer 7) 0 42) = Inr (Some 42)
   \<and> decode_session_cookie (timed_serializer 7) (\<lambda>s. None) 5
        (make_session_cookie (timed_serializer 8) 0 42) = Inr None"
  by (simp add: decode_session_cookie_def make_session_cookie_def timed_serializer_def
      SESSION_MAX_AGE_def except_matches_def)

text \<open>
  Claim C4 says that \<open>decode_session_cookie\<close> never raises to its caller: every signature
  mismatch, malformed payload or expiry yields \<open>None\<close>. The code does not meet it. Its
  \<open>try\<close> block visibly aims at that, and catches the \<open>ValueError\<close> of \<open>int\<close> on a text
  that is no number, but the \<open>except\<close> clause misses three classes. On a correctly signed
  token whose payload is \<open>None\<close> (the token \<open>dumps\<close> makes of \<open>None\<close>) \<open>int\<close> raises
  \<open>TypeError\<close>; on one whose payload is the float infinity it raises \<open>OverflowError\<close>; on
  one whose signed bytes do not decode the signer raises \<open>BadPayload\<close>, which derives from
  \<open>BadData\<close> and not from \<open>BadSignature\<close>. Each reaches the caller, where the sibling
  case of a text payload is caught.
\<close>

theorem decode_session_cookie_raises:
  "decode_session_cookie (timed_serializer 7) (\<lambda>s. None) 0
      (dumps (timed_serializer 7) 0 PyNone) = Inl TypeError
   \<and> decode_session_cookie (timed_serializer 7) (\<lambda>s. None) 0
      (dumps (timed_serializer 7) 0 (PyFloatInf True)) = Inl OverflowError
   \<and> decode_session_cookie (timed_serializer 7) (\<lambda>s. None) 0
      \<lparr>payload = None, issued_at = 0, signed_with = 7\<rparr> = Inl BadPayload
   \<and> decode_session_cookie (timed_serializer 7) (\<lambda>s. None) 0
      (dumps (timed_serializer 7) 0 (PyStr [97])) = Inr None"
  by (simp add: decode_session_cookie_def timed_serializer_def SESSION_MAX_AGE_def
      except_matches_def)

section \<open>Passwords\<close>

lemma take_concat_prefix:
  "(\<And>x. f x \<noteq> []) \<Longrightarrow>
   take n (concat (map f (take n xs))) = take n (concat (map f xs))"
proof (induction xs arbitrary: n)
  case Nil
  then show ?case by simp
next
  case (Cons x xs)
  show ?case
  proof (cases n)
    case 0
    then show ?thesis by simp
  next
    case (Suc k)
    have pos: "0 < length (f x)" using Cons.prems[of x] by simp
    let ?j = "Suc k - length (f x)"
    have jk: "?j \<le> k" using pos by linarith
    have ih: "take k (concat (map f (take k xs))) = take k (concat (map f xs))"
      by (rule Cons.IH) (rule Cons.prems)
    have "take ?j (concat (map f (take k xs)))
            = take ?j (take k (concat (map f (take k xs))))"
      using jk by (simp add: min_absorb1)
    also have "\<dots> = take ?j (take k (concat (map f xs)))"
      by (simp only: ih)
    also have "\<dots> = take ?j (concat (map f xs))"
      using jk by (simp add: min_absorb1)
    finally show ?thesis
      using Suc by simp
  qed
qed

lemma utf8_char_nonempty: "utf8_char c \<noteq> []"
  by (simp add: utf8_char_def)

lemma utf8_encode_take:
  assumes "utf8_encode plain = Inr b"
  shows "\<exists>b'. utf8_encode (take 72 plain) = Inr b' \<and> take 72 b' = take 72 b"
proof -
  from assms have all: "list_all encodable plain" and b: "b = concat (map utf8_char plain)"
    by (auto simp: utf8_encode_def split: if_splits)
  from all have "list_all encodable (take 72 plain)"
    by (auto simp: list_all_iff dest: in_set_takeD)
  then have "utf8_encode (take 72 plain) = Inr (concat (map utf8_char (take 72 plain)))"
    by (simp add: utf8_encode_def)
  moreover have "take 72 (concat (map utf8_char (take 72 plain))) = take 72 b"
    unfolding b by (rule take_concat_prefix) (rule utf8_char_nonempty)
  ultimately show ?thesis by blast
qed

lemma utf8_encode_ascii:
  assumes "list_all (\<lambda>c. c < 128) plain"
  shows "utf8_encode plain = Inr plain"
proof -
  have "list_all encodable plain"
    using assms by (auto simp: list_all_iff encodable_def)
  moreover have "concat (map utf8_char plain) = plain"
    using assms by (induction plain) (simp_all add: utf8_char_def)
  ultimately show ?thesis by (simp add: utf8_encode_def)
qed

lemma length_concat_replicate: "length (concat (replicate n xs)) = n * length xs"
  by (induction n) simp_all

text \<open>
  Where the slice of \<open>hash_password\<close> and the 72-byte limit agree: the encoding of the
  first 72 characters begins with the first 72 bytes of the encoding of the plaintext, and
  for an ASCII plaintext it is exactly those bytes.
\<close>

lemma hash_password_secret_bytes:
  "(\<forall>b. utf8_encode plain = Inr b
        \<longrightarrow> (\<exists>b'. utf8_encode (take 72 plain) = Inr b' \<and> take 72 b' = take 72 b))
   \<and> (list_all (\<lambda>c. c < 128) plain
        \<longrightarrow> utf8_encode plain = Inr plain \<and> utf8_encode (take 72 plain) = Inr (take 72 plain))"
proof -
  have "list_all (\<lambda>c. c < 128) plain \<Longrightarrow> list_all (\<lambda>c. c < 128) (take 72 plain)"
    by (auto simp: list_all_iff dest: in_set_takeD)
  then show ?thesis
    by (auto simp: utf8_encode_ascii dest: utf8_encode_take)
qed

text \<open>
  Claim C6 says that \<open>hash_password\<close> cuts its input to 72 bytes before hashing and that
  \<open>verify_password\<close> applies the same cut. The code does not meet it: \<open>plain[:72]\<close> slices
  a \<open>str\<close>, so it keeps 72 characters. A plaintext of 40 times the letter e with acute
  accent (code point 233) has 40 characters and 80 bytes: the slice keeps all of it, and
  both functions hand the whole 80-byte secret to the password context.
\<close>

theorem hash_password_hands_over_80_bytes:
  "hash_password pwd_ctx salt (replicate 40 233) = ctx_hash pwd_ctx salt (replicate 40 233)
   \<and> verify_password pwd_ctx (replicate 40 233) hashed
       = ctx_verify pwd_ctx (replicate 40 233) hashed
   \<and> utf8_encode (replicate 40 233) = Inr (concat (replicate 40 [195, 169]))
   \<and> length (concat (replicate 40 [195, 169 :: nat])) = 80"
  by (simp add: hash_password_def verify_password_def utf8_encode_def utf8_char_def
      list_all_iff encodable_def length_concat_replicate)

end
